theory Spec2Isabelle
  imports Main "HOL-Library.Word"
begin

unbundle bit_operations_syntax

section \<open>The STM32 RNG driver (drivers/crypto/stm32\_rng.c)\<close>

text \<open>
  The driver talks to three memory-mapped 32-bit registers and to a gating clock, and
  copies 32-bit words into the caller's buffer. The embedding threads one explicit
  state, \<open>world\<close>, through every access and keeps a chronological log of the
  accesses, so that statements about order ("then", "before", "no read after") are
  statements about that log.
\<close>

type_synonym u8 = "8 word"
type_synonym u32 = "32 word"

subsection \<open>Constants of the source\<close>

definition RNG_CR :: nat where "RNG_CR = 0x00"
definition RNG_CR_RNGEN :: u32 where "RNG_CR_RNGEN = push_bit 2 1"

definition RNG_SR :: nat where "RNG_SR = 0x04"
definition RNG_SR_SEIS :: u32 where "RNG_SR_SEIS = push_bit 6 1"
definition RNG_SR_CEIS :: u32 where "RNG_SR_CEIS = push_bit 5 1"
definition RNG_SR_DRDY :: u32 where "RNG_SR_DRDY = push_bit 0 1"

definition RNG_DR :: nat where "RNG_DR = 0x08"

definition RNG_TIMEOUT :: u32 where "RNG_TIMEOUT = 500"

text \<open>
  Modelled from the spec: the errno constant \<open>EIO\<close> (the "device-unavailable/IO
  failure" of the result policy) is declared in the kernel's errno headers, outside
  the driver file; it has its usual value.
\<close>

definition EIO :: int where "EIO = 5"

subsection \<open>State\<close>

text \<open>
  One entry of the log: a clock operation, a register read with the value it returned, a
  register write, a 32-bit store into the destination buffer at a byte offset, or the
  diagnostic of \<open>WARN_ON\<close>.
\<close>

datatype event =
    ClkPrepare
  | ClkUnprepare
  | ClkEnable
  | ClkDisable
  | Readl nat u32
  | Writel u32 nat
  | Store nat u32
  | Warn

text \<open>
  The hardware decides what the status and data registers present; the driver's run
  depends on it only through the values its reads return. \<open>sr_in w n\<close> is the value
  the \<open>n\<close>-th read of the status register returns and \<open>dr_in w n\<close> the value the
  \<open>n\<close>-th read of the data register returns, for arbitrary functions: every hardware
  behaviour is one such pair. The control register is a plain cell. The clock handle is
  a pair of counters. \<open>mem\<close> is the memory at and after the pointer \<open>data\<close> of the
  call, one byte per offset.
\<close>

record world =
  cr_reg :: u32
  sr_in :: "nat \<Rightarrow> u32"
  sr_cnt :: nat
  dr_in :: "nat \<Rightarrow> u32"
  dr_cnt :: nat
  clk_prepare_err :: int
  clk_prepared :: nat
  clk_enabled :: nat
  mem :: "nat \<Rightarrow> u8"
  trace :: "event list"

definition log :: "event \<Rightarrow> world \<Rightarrow> world" where
  "log e w = w\<lparr>trace := trace w @ [e]\<rparr>"

text \<open>The part of the log that a call starting in \<open>w\<close> and ending in \<open>w'\<close> added.\<close>

definition events :: "world \<Rightarrow> world \<Rightarrow> event list" where
  "events w w' = drop (length (trace w)) (trace w')"

subsection \<open>Kernel services used by the driver\<close>

text \<open>
  Modelled from the spec: \<open>readl\<close> and \<open>writel\<close> (linux/io.h) are not in the
  driver file. A read of the control register returns its content; a read of the status
  or data register returns what the peripheral presents at that read; the offset is
  relative to \<open>priv->base\<close>. A write to the control register replaces its content;
  a write to another register is logged (what the peripheral presents afterwards is
  again up to \<open>sr_in\<close>).
\<close>

definition readl :: "nat \<Rightarrow> world \<Rightarrow> u32 \<times> world" where
  "readl off w =
     (if off = RNG_CR then (cr_reg w, log (Readl off (cr_reg w)) w)
      else if off = RNG_SR then
        (sr_in w (sr_cnt w), log (Readl off (sr_in w (sr_cnt w))) (w\<lparr>sr_cnt := sr_cnt w + 1\<rparr>))
      else if off = RNG_DR then
        (dr_in w (dr_cnt w), log (Readl off (dr_in w (dr_cnt w))) (w\<lparr>dr_cnt := dr_cnt w + 1\<rparr>))
      else (0, log (Readl off 0) w))"

definition writel :: "u32 \<Rightarrow> nat \<Rightarrow> world \<Rightarrow> world" where
  "writel v off w =
     (if off = RNG_CR then log (Writel v off) (w\<lparr>cr_reg := v\<rparr>)
      else log (Writel v off) w)"

text \<open>
  Modelled from the spec: the clock operations (linux/clk.h) are not in the driver
  file. The spec treats the clock as an opaque capability with prepare, enable, disable
  and unprepare, possibly reference-counted by the platform: \<open>clk_prepare\<close> returns
  the platform's answer \<open>clk_prepare_err\<close> and counts one more preparation when that
  is 0; \<open>clk_unprepare\<close> takes one back; \<open>clk_enable\<close> and \<open>clk_disable\<close> do the
  same on the enable count.
\<close>

definition clk_prepare :: "world \<Rightarrow> int \<times> world" where
  "clk_prepare w =
     (if clk_prepare_err w = 0
      then (0, log ClkPrepare (w\<lparr>clk_prepared := clk_prepared w + 1\<rparr>))
      else (clk_prepare_err w, log ClkPrepare w))"

definition clk_unprepare :: "world \<Rightarrow> world" where
  "clk_unprepare w = log ClkUnprepare (w\<lparr>clk_prepared := clk_prepared w - 1\<rparr>)"

definition clk_enable :: "world \<Rightarrow> world" where
  "clk_enable w = log ClkEnable (w\<lparr>clk_enabled := clk_enabled w + 1\<rparr>)"

definition clk_disable :: "world \<Rightarrow> world" where
  "clk_disable w = log ClkDisable (w\<lparr>clk_enabled := clk_enabled w - 1\<rparr>)"

text \<open>\<open>WARN_ON(c)\<close> has the value of \<open>c\<close> and prints a diagnostic when it holds.\<close>

definition WARN_ON :: "bool \<Rightarrow> world \<Rightarrow> bool \<times> world" where
  "WARN_ON c w = (if c then (True, log Warn w) else (False, w))"

text \<open>
  \<open>*(u32 *)data = v\<close>: the four bytes of \<open>v\<close> at offsets \<open>off .. off + 3\<close>, least
  significant first (the STM32 parts are little-endian).
\<close>

definition store_u32 :: "nat \<Rightarrow> u32 \<Rightarrow> world \<Rightarrow> world" where
  "store_u32 off v w =
     log (Store off v)
       (w\<lparr>mem := (\<lambda>a. if off \<le> a \<and> a < off + 4
                        then ucast (drop_bit (8 * (a - off)) v)
                        else mem w a)\<rparr>)"

definition load_u32 :: "(nat \<Rightarrow> u8) \<Rightarrow> nat \<Rightarrow> u32" where
  "load_u32 m off =
     ucast (m off) OR push_bit 8 (ucast (m (off + 1)))
       OR push_bit 16 (ucast (m (off + 2))) OR push_bit 24 (ucast (m (off + 3)))"

subsection \<open>\<open>stm32_rng_read\<close>\<close>

text \<open>
  Lines 71 to 74, the busy-wait: \<open>do { cpu_relax(); sr = readl(SR); } while (!sr &&
  --timeout)\<close>, with \<open>timeout\<close> an \<open>unsigned int\<close>. \<open>cpu_relax\<close> is a hint to the
  processor and has no effect on the state.
\<close>

function busy_wait :: "u32 \<Rightarrow> world \<Rightarrow> u32 \<times> world" where
  "busy_wait timeout w =
     (case readl RNG_SR w of (sr, w') \<Rightarrow>
        if sr = 0 then
          (if timeout - 1 \<noteq> 0 then busy_wait (timeout - 1) w' else (sr, w'))
        else (sr, w'))"
  by pat_completeness auto
termination
proof (relation "measure (\<lambda>(t, w). unat (t - 1))")
  show "wf (measure (\<lambda>(t, w). unat (t - 1)))" by simp
next
  fix timeout :: u32 and w w' :: world
  have pred: "x \<noteq> 0 \<Longrightarrow> unat (x - 1) < unat x" for x :: u32
    by (simp add: unat_minus_one unat_gt_0)
  assume "timeout - 1 \<noteq> 0"
  then have "unat (timeout - 1 - 1) < unat (timeout - 1)"
    by (rule pred)
  then show "((timeout - 1, w'), (timeout, w)) \<in> measure (\<lambda>(t, w). unat (t - 1))"
    by simp
qed

text \<open>
  Lines 66 to 90, the drain loop. \<open>maxsz\<close> is the remaining space (\<open>max\<close> of the
  source, a \<open>size_t\<close>; it only decreases, and never below 1, so it is a natural
  number of any width), \<open>data\<close> the byte offset of the write pointer from its value
  at entry, \<open>retval\<close> the 32-bit \<open>int\<close> accumulator: \<open>retval += sizeof(u32)\<close>
  adds 4 modulo \<open>2 ^ 32\<close>. The result is the final \<open>retval\<close> and state.
\<close>

function read_loop :: "bool \<Rightarrow> nat \<Rightarrow> nat \<Rightarrow> u32 \<Rightarrow> world \<Rightarrow> u32 \<times> world" where
  "read_loop wait maxsz data retval w =
     (if maxsz > 4 then
        (case readl RNG_SR w of (sr0, w1) \<Rightarrow>
         case (if sr0 = 0 \<and> wait then busy_wait RNG_TIMEOUT w1 else (sr0, w1)) of (sr, w2) \<Rightarrow>
         case WARN_ON (sr AND (RNG_SR_SEIS OR RNG_SR_CEIS) \<noteq> 0) w2 of (fault, w3) \<Rightarrow>
           if fault then (retval, w3)
           else if sr = 0 then (retval, w3)
           else (case readl RNG_DR w3 of (v, w4) \<Rightarrow>
                   read_loop wait (maxsz - 4) (data + 4) (retval + 4) (store_u32 data v w4)))
      else (retval, w))"
  by pat_completeness auto
termination
  by (relation "measure (\<lambda>(wait, maxsz, data, retval, w). maxsz)") auto

text \<open>
  The whole function. The result is the \<open>int\<close> it returns: \<open>retval || !wait ? retval
  : -EIO\<close>.
\<close>

definition stm32_rng_read :: "nat \<Rightarrow> bool \<Rightarrow> world \<Rightarrow> int \<times> world" where
  "stm32_rng_read maxsz wait w =
     (let w1 = clk_enable w in
      case readl RNG_CR w1 of (cr, w2) \<Rightarrow>
      let w3 = writel (cr OR RNG_CR_RNGEN) RNG_CR w2 in
      case read_loop wait maxsz 0 0 w3 of (retval, w4) \<Rightarrow>
      let w5 = writel cr RNG_CR w4;
          w6 = clk_disable w5
      in (if retval \<noteq> 0 \<or> \<not> wait then sint retval else - EIO, w6))"

subsection \<open>\<open>stm32_rng_init\<close> and \<open>stm32_rng_cleanup\<close>\<close>

definition stm32_rng_init :: "world \<Rightarrow> int \<times> world" where
  "stm32_rng_init w =
     (case clk_prepare w of (err, w1) \<Rightarrow>
        if err \<noteq> 0 then (err, w1)
        else (case readl RNG_SR w1 of (sr, w2) \<Rightarrow>
                (0, writel (sr AND NOT (RNG_SR_SEIS OR RNG_SR_CEIS)) RNG_SR w2)))"

definition stm32_rng_cleanup :: "world \<Rightarrow> world" where
  "stm32_rng_cleanup w = clk_unprepare w"

subsection \<open>Simulated peripherals\<close>

text \<open>
  A driver instance in its initial state, in front of a peripheral that presents the
  status values \<open>sr\<close> and the data words \<open>dr\<close>: control register 0, clock neither
  prepared nor enabled, buffer zeroed, empty log.
\<close>

definition sim :: "(nat \<Rightarrow> u32) \<Rightarrow> (nat \<Rightarrow> u32) \<Rightarrow> world" where
  "sim sr dr = \<lparr>cr_reg = 0, sr_in = sr, sr_cnt = 0, dr_in = dr, dr_cnt = 0,
     clk_prepare_err = 0, clk_prepared = 0, clk_enabled = 0, mem = (\<lambda>_. 0), trace = []\<rparr>"

section \<open>Vocabulary of the properties\<close>

text \<open>The flags of a status snapshot.\<close>

definition data_ready :: "u32 \<Rightarrow> bool" where
  "data_ready sr = (sr AND RNG_SR_DRDY \<noteq> 0)"

definition is_fault :: "u32 \<Rightarrow> bool" where
  "is_fault sr = (sr AND (RNG_SR_SEIS OR RNG_SR_CEIS) \<noteq> 0)"

text \<open>Kinds of log entries.\<close>

fun is_store :: "event \<Rightarrow> bool" where
  "is_store (Store off v) = True"
| "is_store _ = False"

fun is_readl :: "event \<Rightarrow> bool" where
  "is_readl (Readl off v) = True"
| "is_readl _ = False"

fun is_clk :: "event \<Rightarrow> bool" where
  "is_clk ClkPrepare = True"
| "is_clk ClkUnprepare = True"
| "is_clk ClkEnable = True"
| "is_clk ClkDisable = True"
| "is_clk _ = False"

text \<open>
  What the drain loop may do: read the status or the data register, store into the
  buffer, warn. In particular no write to any register and no clock operation.
\<close>

fun loop_event :: "event \<Rightarrow> bool" where
  "loop_event (Readl off v) = (off = RNG_SR \<or> off = RNG_DR)"
| "loop_event (Store off v) = True"
| "loop_event Warn = True"
| "loop_event _ = False"

text \<open>A status read that returned Seed-Error or Clock-Error.\<close>

fun fault_snapshot :: "event \<Rightarrow> bool" where
  "fault_snapshot (Readl off v) = (off = RNG_SR \<and> v AND (RNG_SR_SEIS OR RNG_SR_CEIS) \<noteq> 0)"
| "fault_snapshot _ = False"

text \<open>
  A log stops at a fault: after the first status read that shows an error flag there is
  no further register read and no store.
\<close>

fun stops_at_fault :: "event list \<Rightarrow> bool" where
  "stops_at_fault [] = True"
| "stops_at_fault (e # es) =
     (if fault_snapshot e then list_all (\<lambda>e'. \<not> is_readl e' \<and> \<not> is_store e') es
      else stops_at_fault es)"

text \<open>
  The number of bytes a call stored into the buffer, and the same number as the 32-bit
  \<open>int\<close> accumulator \<open>retval\<close> holds it at line 96.
\<close>

definition bytes_written :: "world \<Rightarrow> world \<Rightarrow> nat" where
  "bytes_written w w' = 4 * length (filter is_store (events w w'))"

definition accumulated :: "world \<Rightarrow> world \<Rightarrow> u32" where
  "accumulated w w' = word_of_nat (bytes_written w w')"

text \<open>
  Names for the pieces of \<open>stm32_rng_read\<close>, used to state what one pass of the loop
  does. \<open>poll\<close> is lines 67 to 75: the status read of an iteration and, when it is 0 in
  blocking mode, the busy-wait. \<open>polled j w\<close> is the state after \<open>j\<close> status reads
  that returned 0 and one more that ended the polling. \<open>drained d w\<close> is the state after
  lines 85 to 89 stored one data word at offset \<open>d\<close>. \<open>acquired\<close> is the state after
  lines 62 to 64, \<open>released cr\<close> the effect of lines 93 and 94.
\<close>

definition poll :: "bool \<Rightarrow> world \<Rightarrow> u32 \<times> world" where
  "poll wait w =
     (case readl RNG_SR w of (sr0, w1) \<Rightarrow>
        if sr0 = 0 \<and> wait then busy_wait RNG_TIMEOUT w1 else (sr0, w1))"

definition polled :: "nat \<Rightarrow> world \<Rightarrow> world" where
  "polled j w =
     w\<lparr>sr_cnt := sr_cnt w + Suc j,
       trace := trace w @ replicate j (Readl RNG_SR 0) @ [Readl RNG_SR (sr_in w (sr_cnt w + j))]\<rparr>"

definition drained :: "nat \<Rightarrow> world \<Rightarrow> world" where
  "drained d w = store_u32 d (dr_in w (dr_cnt w)) (snd (readl RNG_DR w))"

definition acquired :: "world \<Rightarrow> world" where
  "acquired w = writel (cr_reg w OR RNG_CR_RNGEN) RNG_CR (snd (readl RNG_CR (clk_enable w)))"

definition released :: "u32 \<Rightarrow> world \<Rightarrow> world" where
  "released cr w = clk_disable (writel cr RNG_CR w)"

section \<open>Lemmas\<close>

text \<open>
  The equations of the two loops are unconditional and recursive: they are unfolded
  explicitly, one pass at a time.
\<close>

declare busy_wait.simps [simp del] read_loop.simps [simp del]

lemmas run_defs = stm32_rng_read_def read_loop.simps busy_wait.simps readl_def writel_def
  clk_enable_def clk_disable_def clk_prepare_def clk_unprepare_def WARN_ON_def store_u32_def
  log_def events_def sim_def RNG_CR_def RNG_SR_def RNG_DR_def RNG_CR_RNGEN_def RNG_SR_SEIS_def
  RNG_SR_CEIS_def RNG_SR_DRDY_def RNG_TIMEOUT_def EIO_def stm32_rng_init_def stm32_rng_cleanup_def

subsection \<open>State after each piece\<close>

lemma log_fields [simp]:
  "cr_reg (log e w) = cr_reg w"
  "sr_in (log e w) = sr_in w"
  "sr_cnt (log e w) = sr_cnt w"
  "dr_in (log e w) = dr_in w"
  "dr_cnt (log e w) = dr_cnt w"
  "clk_prepare_err (log e w) = clk_prepare_err w"
  "clk_prepared (log e w) = clk_prepared w"
  "clk_enabled (log e w) = clk_enabled w"
  "mem (log e w) = mem w"
  "trace (log e w) = trace w @ [e]"
  by (simp_all add: log_def)

lemma polled_fields [simp]:
  "cr_reg (polled j w) = cr_reg w"
  "sr_in (polled j w) = sr_in w"
  "sr_cnt (polled j w) = sr_cnt w + Suc j"
  "dr_in (polled j w) = dr_in w"
  "dr_cnt (polled j w) = dr_cnt w"
  "clk_prepare_err (polled j w) = clk_prepare_err w"
  "clk_prepared (polled j w) = clk_prepared w"
  "clk_enabled (polled j w) = clk_enabled w"
  "mem (polled j w) = mem w"
  "trace (polled j w) =
     trace w @ replicate j (Readl RNG_SR 0) @ [Readl RNG_SR (sr_in w (sr_cnt w + j))]"
  by (simp_all add: polled_def)

lemma drained_fields [simp]:
  "cr_reg (drained d w) = cr_reg w"
  "sr_in (drained d w) = sr_in w"
  "sr_cnt (drained d w) = sr_cnt w"
  "dr_in (drained d w) = dr_in w"
  "dr_cnt (drained d w) = dr_cnt w + 1"
  "clk_prepare_err (drained d w) = clk_prepare_err w"
  "clk_prepared (drained d w) = clk_prepared w"
  "clk_enabled (drained d w) = clk_enabled w"
  "trace (drained d w) =
     trace w @ [Readl RNG_DR (dr_in w (dr_cnt w)), Store d (dr_in w (dr_cnt w))]"
  by (simp_all add: drained_def store_u32_def readl_def log_def RNG_DR_def RNG_SR_def RNG_CR_def)

lemma drained_mem:
  "mem (drained d w) a =
     (if d \<le> a \<and> a < d + 4 then ucast (drop_bit (8 * (a - d)) (dr_in w (dr_cnt w)))
      else mem w a)"
  by (simp add: drained_def store_u32_def readl_def log_def RNG_DR_def RNG_SR_def RNG_CR_def)

lemma acquired_fields [simp]:
  "cr_reg (acquired w) = cr_reg w OR RNG_CR_RNGEN"
  "sr_in (acquired w) = sr_in w"
  "sr_cnt (acquired w) = sr_cnt w"
  "dr_in (acquired w) = dr_in w"
  "dr_cnt (acquired w) = dr_cnt w"
  "clk_prepare_err (acquired w) = clk_prepare_err w"
  "clk_prepared (acquired w) = clk_prepared w"
  "clk_enabled (acquired w) = clk_enabled w + 1"
  "mem (acquired w) = mem w"
  "trace (acquired w) =
     trace w @ [ClkEnable, Readl RNG_CR (cr_reg w), Writel (cr_reg w OR RNG_CR_RNGEN) RNG_CR]"
  by (simp_all add: acquired_def writel_def readl_def clk_enable_def log_def RNG_CR_def)

lemma released_fields [simp]:
  "cr_reg (released cr w) = cr"
  "sr_in (released cr w) = sr_in w"
  "sr_cnt (released cr w) = sr_cnt w"
  "dr_in (released cr w) = dr_in w"
  "dr_cnt (released cr w) = dr_cnt w"
  "clk_prepare_err (released cr w) = clk_prepare_err w"
  "clk_prepared (released cr w) = clk_prepared w"
  "clk_enabled (released cr w) = clk_enabled w - 1"
  "mem (released cr w) = mem w"
  "trace (released cr w) = trace w @ [Writel cr RNG_CR, ClkDisable]"
  by (simp_all add: released_def writel_def clk_disable_def log_def RNG_CR_def)

lemma events_append: "trace w' = trace w @ es \<Longrightarrow> events w w' = es"
  by (simp add: events_def)

subsection \<open>The busy-wait and one status poll\<close>

lemma readl_SR: "readl RNG_SR w = (sr_in w (sr_cnt w), polled 0 w)"
  by (simp add: readl_def polled_def log_def RNG_SR_def RNG_CR_def)

lemma polled_Suc:
  "sr_in w (sr_cnt w) = 0 \<Longrightarrow> polled j (polled 0 w) = polled (Suc j) w"
  by (simp add: polled_def)

lemma busy_wait_effect:
  "\<exists>j. busy_wait t w = (sr_in w (sr_cnt w + j), polled j w) \<and> j \<le> unat (t - 1)
       \<and> (\<forall>i<j. sr_in w (sr_cnt w + i) = 0)
       \<and> (sr_in w (sr_cnt w + j) = 0 \<longrightarrow> j = unat (t - 1))"
proof (induction "unat (t - 1)" arbitrary: t w)
  case 0
  then have "t - 1 = 0" by (simp add: unat_eq_0)
  then have "busy_wait t w = (sr_in w (sr_cnt w), polled 0 w)"
    by (subst busy_wait.simps) (simp add: readl_SR)
  then show ?case using 0 by (intro exI [of _ 0]) simp
next
  case (Suc n)
  then have nz: "t - 1 \<noteq> 0" by (metis unat_0 nat.distinct(1))
  show ?case
  proof (cases "sr_in w (sr_cnt w) = 0")
    case False
    then have "busy_wait t w = (sr_in w (sr_cnt w), polled 0 w)"
      by (subst busy_wait.simps) (simp add: readl_SR)
    then show ?thesis using False by (intro exI [of _ 0]) simp
  next
    case True
    have "unat (t - 1 - 1) = unat (t - 1) - 1" by (rule unat_minus_one [OF nz])
    with Suc(2) have n: "n = unat (t - 1 - 1)" by linarith
    from Suc(1) [OF n, of "polled 0 w"] obtain j where
      j: "busy_wait (t - 1) (polled 0 w)
            = (sr_in (polled 0 w) (sr_cnt (polled 0 w) + j), polled j (polled 0 w))"
         "j \<le> unat (t - 1 - 1)"
         "\<forall>i<j. sr_in (polled 0 w) (sr_cnt (polled 0 w) + i) = 0"
         "sr_in (polled 0 w) (sr_cnt (polled 0 w) + j) = 0 \<longrightarrow> j = unat (t - 1 - 1)"
      by blast
    have step: "busy_wait t w = busy_wait (t - 1) (polled 0 w)"
      using True nz by (subst busy_wait.simps) (simp add: readl_SR)
    have sr: "sr_in (polled 0 w) = sr_in w" "sr_cnt (polled 0 w) = Suc (sr_cnt w)"
      by (simp_all add: polled_def)
    have pp: "polled j (polled 0 w) = polled (Suc j) w"
      using True by (rule polled_Suc)
    have zeros: "\<forall>i<Suc j. sr_in w (sr_cnt w + i) = 0"
      using j(3) True sr by (auto simp: less_Suc_eq_0_disj)
    show ?thesis
      using step j(1,2,4) zeros n Suc(2) sr pp
      by (intro exI [of _ "Suc j"]) auto
  qed
qed

lemma poll_effect:
  "\<exists>j. poll wait w = (sr_in w (sr_cnt w + j), polled j w) \<and> j \<le> 500
       \<and> (\<forall>i<j. sr_in w (sr_cnt w + i) = 0)
       \<and> (\<not> wait \<longrightarrow> j = 0)
       \<and> (sr_in w (sr_cnt w + j) = 0 \<and> wait \<longrightarrow> j = 500)"
proof (cases "sr_in w (sr_cnt w) = 0 \<and> wait")
  case False
  then have "poll wait w = (sr_in w (sr_cnt w), polled 0 w)"
    by (auto simp: poll_def readl_SR)
  then show ?thesis using False by (intro exI [of _ 0]) auto
next
  case True
  from busy_wait_effect [of RNG_TIMEOUT "polled 0 w"] obtain j where
    j: "busy_wait RNG_TIMEOUT (polled 0 w)
          = (sr_in (polled 0 w) (sr_cnt (polled 0 w) + j), polled j (polled 0 w))"
       "j \<le> unat (RNG_TIMEOUT - 1)"
       "\<forall>i<j. sr_in (polled 0 w) (sr_cnt (polled 0 w) + i) = 0"
       "sr_in (polled 0 w) (sr_cnt (polled 0 w) + j) = 0 \<longrightarrow> j = unat (RNG_TIMEOUT - 1)"
    by blast
  have t: "unat (RNG_TIMEOUT - 1) = 499" by (simp add: RNG_TIMEOUT_def)
  have sr: "sr_in (polled 0 w) = sr_in w" "sr_cnt (polled 0 w) = Suc (sr_cnt w)"
    by (simp_all add: polled_def)
  have pp: "polled j (polled 0 w) = polled (Suc j) w"
    using True by (intro polled_Suc) simp
  have zeros: "\<forall>i<Suc j. sr_in w (sr_cnt w + i) = 0"
    using j(3) True sr by (auto simp: less_Suc_eq_0_disj)
  have "poll wait w = busy_wait RNG_TIMEOUT (polled 0 w)"
    using True by (simp add: poll_def readl_SR)
  then show ?thesis
    using j(1,2,4) zeros t sr pp True
    by (intro exI [of _ "Suc j"]) auto
qed

subsection \<open>The drain loop, pass by pass\<close>

lemma read_loop_unfold:
  "read_loop wait m d rv w =
     (if 4 < m then
        (case poll wait w of (sr, w2) \<Rightarrow>
           if is_fault sr then (rv, log Warn w2)
           else if sr = 0 then (rv, w2)
           else read_loop wait (m - 4) (d + 4) (rv + 4) (drained d w2))
      else (rv, w))"
  by (subst read_loop.simps)
     (simp add: poll_def drained_def is_fault_def WARN_ON_def readl_def RNG_DR_def RNG_SR_def
        RNG_CR_def split: prod.splits)

lemma read_loop_induct [case_names stop fault empty step]:
  assumes stop: "\<And>m d rv w. m \<le> 4 \<Longrightarrow> P m d rv w (rv, w)"
    and fault: "\<And>m d rv w j.
        \<lbrakk>4 < m; j \<le> 500; \<forall>i<j. sr_in w (sr_cnt w + i) = 0; \<not> wait \<longrightarrow> j = 0;
         is_fault (sr_in w (sr_cnt w + j))\<rbrakk>
        \<Longrightarrow> P m d rv w (rv, log Warn (polled j w))"
    and empty: "\<And>m d rv w j.
        \<lbrakk>4 < m; j \<le> 500; \<forall>i<j. sr_in w (sr_cnt w + i) = 0; \<not> wait \<longrightarrow> j = 0;
         wait \<longrightarrow> j = 500; sr_in w (sr_cnt w + j) = 0\<rbrakk>
        \<Longrightarrow> P m d rv w (rv, polled j w)"
    and step: "\<And>m d rv w j r.
        \<lbrakk>4 < m; j \<le> 500; \<forall>i<j. sr_in w (sr_cnt w + i) = 0; \<not> wait \<longrightarrow> j = 0;
         sr_in w (sr_cnt w + j) \<noteq> 0; \<not> is_fault (sr_in w (sr_cnt w + j));
         P (m - 4) (d + 4) (rv + 4) (drained d (polled j w)) r\<rbrakk>
        \<Longrightarrow> P m d rv w r"
  shows "P m d rv w (read_loop wait m d rv w)"
proof (induction m arbitrary: d rv w rule: less_induct)
  case (less m)
  show ?case
  proof (cases "4 < m")
    case False
    then have "read_loop wait m d rv w = (rv, w)"
      by (subst read_loop_unfold) simp
    with False stop [of m d rv w] show ?thesis by simp
  next
    case True
    from poll_effect [of wait w] obtain j where
      j: "poll wait w = (sr_in w (sr_cnt w + j), polled j w)" "j \<le> 500"
         "\<forall>i<j. sr_in w (sr_cnt w + i) = 0" "\<not> wait \<longrightarrow> j = 0"
         "sr_in w (sr_cnt w + j) = 0 \<and> wait \<longrightarrow> j = 500"
      by blast
    let ?sr = "sr_in w (sr_cnt w + j)"
    consider (f) "is_fault ?sr" | (e) "\<not> is_fault ?sr" "?sr = 0"
      | (s) "\<not> is_fault ?sr" "?sr \<noteq> 0"
      by blast
    then show ?thesis
    proof cases
      case f
      then have "read_loop wait m d rv w = (rv, log Warn (polled j w))"
        using True j(1) by (subst read_loop_unfold) simp
      with fault [OF True j(2,3,4) f] show ?thesis by simp
    next
      case e
      then have "read_loop wait m d rv w = (rv, polled j w)"
        using True j(1) by (subst read_loop_unfold) simp
      moreover have "wait \<longrightarrow> j = 500" using j(5) e by simp
      ultimately show ?thesis using empty [OF True j(2,3,4) _ e(2)] by simp
    next
      case s
      then have eq: "read_loop wait m d rv w
          = read_loop wait (m - 4) (d + 4) (rv + 4) (drained d (polled j w))"
        using True j(1) by (subst read_loop_unfold) simp
      have "m - 4 < m" using True by simp
      from less [OF this] have
        "P (m - 4) (d + 4) (rv + 4) (drained d (polled j w))
           (read_loop wait (m - 4) (d + 4) (rv + 4) (drained d (polled j w)))" .
      from step [OF True j(2,3,4) s(2,1) this] show ?thesis by (simp add: eq)
    qed
  qed
qed

lemma read_loop_frame:
  "cr_reg (snd (read_loop wait m d rv w)) = cr_reg w \<and>
   sr_in (snd (read_loop wait m d rv w)) = sr_in w \<and>
   dr_in (snd (read_loop wait m d rv w)) = dr_in w \<and>
   clk_prepare_err (snd (read_loop wait m d rv w)) = clk_prepare_err w \<and>
   clk_prepared (snd (read_loop wait m d rv w)) = clk_prepared w \<and>
   clk_enabled (snd (read_loop wait m d rv w)) = clk_enabled w"
  by (rule read_loop_induct
      [where P = "\<lambda>m d rv w r. cr_reg (snd r) = cr_reg w \<and> sr_in (snd r) = sr_in w \<and>
         dr_in (snd r) = dr_in w \<and> clk_prepare_err (snd r) = clk_prepare_err w \<and>
         clk_prepared (snd r) = clk_prepared w \<and> clk_enabled (snd r) = clk_enabled w"])
     simp_all


lemma read_loop_count:
  "\<exists>k. dr_cnt (snd (read_loop wait m d rv w)) = dr_cnt w + k \<and>
       fst (read_loop wait m d rv w) = rv + word_of_nat (4 * k) \<and>
       4 * k \<le> m - 1 \<and>
       (\<forall>a. a < d \<or> d + 4 * k \<le> a \<longrightarrow> mem (snd (read_loop wait m d rv w)) a = mem w a)"
proof (induction rule: read_loop_induct
    [where P = "\<lambda>m d rv w r. \<exists>k. dr_cnt (snd r) = dr_cnt w + k \<and>
       fst r = rv + word_of_nat (4 * k) \<and> 4 * k \<le> m - 1 \<and>
       (\<forall>a. a < d \<or> d + 4 * k \<le> a \<longrightarrow> mem (snd r) a = mem w a)"])
  case (stop m d rv w)
  show ?case by (intro exI [of _ 0]) simp
next
  case (fault m d rv w j)
  show ?case by (intro exI [of _ 0]) simp
next
  case (empty m d rv w j)
  show ?case by (intro exI [of _ 0]) simp
next
  case (step m d rv w j r)
  then obtain k where k: "dr_cnt (snd r) = dr_cnt w + 1 + k"
    "fst r = rv + 4 + word_of_nat (4 * k)" "4 * k \<le> m - 4 - 1"
    "\<forall>a. a < d + 4 \<or> d + 4 + 4 * k \<le> a \<longrightarrow> mem (snd r) a = mem (drained d (polled j w)) a"
    by auto
  have "fst r = rv + word_of_nat (4 * Suc k)" using k(2) by simp
  moreover have "4 * Suc k \<le> m - 1" using k(3) step(1) by simp
  moreover have "\<forall>a. a < d \<or> d + 4 * Suc k \<le> a \<longrightarrow> mem (snd r) a = mem w a"
    using k(4) by (simp add: drained_mem)
  ultimately show ?case using k(1) by (intro exI [of _ "Suc k"]) simp
qed

lemma read_loop_sr_cnt:
  "sr_cnt w \<le> sr_cnt (snd (read_loop wait m d rv w)) \<and>
   sr_cnt (snd (read_loop wait m d rv w)) \<le> sr_cnt w + 501 * ((m - 1) div 4)"
proof (induction rule: read_loop_induct
    [where P = "\<lambda>m d rv w r. sr_cnt w \<le> sr_cnt (snd r) \<and>
       sr_cnt (snd r) \<le> sr_cnt w + 501 * ((m - 1) div 4)"])
  case (stop m d rv w)
  show ?case by simp
next
  case (fault m d rv w j)
  from \<open>4 < m\<close> have "1 \<le> (m - 1) div 4" by arith
  with \<open>j \<le> 500\<close> show ?case by simp
next
  case (empty m d rv w j)
  from \<open>4 < m\<close> have "1 \<le> (m - 1) div 4" by arith
  with \<open>j \<le> 500\<close> show ?case by simp
next
  case (step m d rv w j r)
  from \<open>4 < m\<close> have "(m - 1) div 4 = Suc ((m - 4 - 1) div 4)" by arith
  with step show ?case by simp
qed

subsection \<open>The log of the drain loop\<close>

lemma stops_at_fault_prefix:
  "list_all (\<lambda>e. \<not> fault_snapshot e) xs \<Longrightarrow> stops_at_fault (xs @ ys) = stops_at_fault ys"
  by (induction xs) simp_all

lemma stops_at_fault_quiet:
  "list_all (\<lambda>e'. \<not> is_readl e' \<and> \<not> is_store e') ys \<Longrightarrow> stops_at_fault ys"
proof (induction ys)
  case Nil
  show ?case by simp
next
  case (Cons e ys)
  then show ?case by (cases e) simp_all
qed

lemma stops_at_fault_append:
  "stops_at_fault es \<Longrightarrow> list_all (\<lambda>e'. \<not> is_readl e' \<and> \<not> is_store e') ys
     \<Longrightarrow> stops_at_fault (es @ ys)"
  by (induction es) (simp_all add: stops_at_fault_quiet)

lemma stops_at_fault_zeros:
  "stops_at_fault (replicate j (Readl RNG_SR 0) @ ys) = stops_at_fault ys"
  by (induction j) simp_all

lemma poll_events_no_fault:
  "\<not> is_fault sr \<Longrightarrow>
   list_all (\<lambda>e. \<not> fault_snapshot e) (replicate j (Readl RNG_SR 0) @ [Readl RNG_SR sr])"
  by (simp add: is_fault_def list_all_iff)

lemma read_loop_stores:
  "\<exists>k es. dr_cnt (snd (read_loop wait m d rv w)) = dr_cnt w + k \<and>
       trace (snd (read_loop wait m d rv w)) = trace w @ es \<and>
       filter is_store es = map (\<lambda>i. Store (d + 4 * i) (dr_in w (dr_cnt w + i))) [0..<k]"
proof (induction rule: read_loop_induct
    [where P = "\<lambda>m d rv w r. \<exists>k es. dr_cnt (snd r) = dr_cnt w + k \<and>
       trace (snd r) = trace w @ es \<and>
       filter is_store es = map (\<lambda>i. Store (d + 4 * i) (dr_in w (dr_cnt w + i))) [0..<k]"])
  case (stop m d rv w)
  show ?case by (intro exI [of _ 0] exI [of _ "[]"]) simp
next
  case (fault m d rv w j)
  show ?case
    by (intro exI [of _ 0]
          exI [of _ "replicate j (Readl RNG_SR 0) @ [Readl RNG_SR (sr_in w (sr_cnt w + j)), Warn]"])
       simp
next
  case (empty m d rv w j)
  show ?case
    by (intro exI [of _ 0]
          exI [of _ "replicate j (Readl RNG_SR 0) @ [Readl RNG_SR (sr_in w (sr_cnt w + j))]"])
       simp
next
  case (step m d rv w j r)
  then obtain k es where k: "dr_cnt (snd r) = dr_cnt w + 1 + k"
    "trace (snd r) = trace (drained d (polled j w)) @ es"
    "filter is_store es = map (\<lambda>i. Store (d + 4 + 4 * i) (dr_in w (dr_cnt w + 1 + i))) [0..<k]"
    by auto
  let ?v = "dr_in w (dr_cnt w)"
  let ?es = "replicate j (Readl RNG_SR 0) @ [Readl RNG_SR (sr_in w (sr_cnt w + j))]
               @ [Readl RNG_DR ?v, Store d ?v] @ es"
  have "trace (snd r) = trace w @ ?es" using k(2) by simp
  moreover have "filter is_store ?es
      = map (\<lambda>i. Store (d + 4 * i) (dr_in w (dr_cnt w + i))) [0..<Suc k]"
    using k(3) by (simp add: map_upt_Suc del: upt_Suc)
  ultimately show ?case using k(1) by (intro exI [of _ "Suc k"] exI [of _ ?es]) simp
qed

lemma read_loop_events:
  "\<exists>es. trace (snd (read_loop wait m d rv w)) = trace w @ es \<and>
       list_all loop_event es \<and> stops_at_fault es"
proof (induction rule: read_loop_induct
    [where P = "\<lambda>m d rv w r. \<exists>es. trace (snd r) = trace w @ es \<and>
       list_all loop_event es \<and> stops_at_fault es"])
  case (stop m d rv w)
  show ?case by (intro exI [of _ "[]"]) simp
next
  case (fault m d rv w j)
  let ?sr = "sr_in w (sr_cnt w + j)"
  have "stops_at_fault (replicate j (Readl RNG_SR 0) @ [Readl RNG_SR ?sr, Warn])"
    by (simp add: stops_at_fault_zeros)
  then show ?case
    by (intro exI [of _ "replicate j (Readl RNG_SR 0) @ [Readl RNG_SR ?sr, Warn]"])
       (simp add: list_all_iff)
next
  case (empty m d rv w j)
  have "stops_at_fault (replicate j (Readl RNG_SR 0) @ [Readl RNG_SR 0])"
    by (simp add: stops_at_fault_zeros)
  with empty show ?case
    by (intro exI [of _ "replicate j (Readl RNG_SR 0) @ [Readl RNG_SR 0]"])
       (simp add: list_all_iff)
next
  case (step m d rv w j r)
  then obtain es where es: "trace (snd r) = trace (drained d (polled j w)) @ es"
    "list_all loop_event es" "stops_at_fault es"
    by auto
  let ?sr = "sr_in w (sr_cnt w + j)"
  let ?v = "dr_in w (dr_cnt w)"
  let ?pe = "replicate j (Readl RNG_SR 0) @ [Readl RNG_SR ?sr]"
  let ?es = "?pe @ [Readl RNG_DR ?v, Store d ?v] @ es"
  have "trace (snd r) = trace w @ ?es" using es(1) by simp
  moreover have "list_all loop_event ?es" using es(2) by (auto simp: list_all_iff)
  moreover have "stops_at_fault ?es"
    using stops_at_fault_prefix [OF poll_events_no_fault [OF step(6)], of j
            "[Readl RNG_DR ?v, Store d ?v] @ es"] es(3)
    by (simp add: RNG_DR_def RNG_SR_def)
  ultimately show ?case by (intro exI [of _ ?es]) simp
qed

subsection \<open>The whole of \<open>stm32_rng_read\<close>\<close>

lemma stm32_rng_read_unfold:
  "stm32_rng_read m wait w =
     (if fst (read_loop wait m 0 0 (acquired w)) \<noteq> 0 \<or> \<not> wait
      then sint (fst (read_loop wait m 0 0 (acquired w))) else - EIO,
      released (cr_reg w) (snd (read_loop wait m 0 0 (acquired w))))"
  by (cases wait)
     (simp_all add: stm32_rng_read_def acquired_def released_def readl_def RNG_CR_def
        clk_enable_def log_def Let_def case_prod_unfold)

lemma fill_summary:
  "\<exists>k es.
     events w (snd (stm32_rng_read m wait w)) =
       [ClkEnable, Readl RNG_CR (cr_reg w), Writel (cr_reg w OR RNG_CR_RNGEN) RNG_CR] @ es
         @ [Writel (cr_reg w) RNG_CR, ClkDisable] \<and>
     list_all loop_event es \<and> stops_at_fault es \<and>
     filter is_store es = map (\<lambda>i. Store (4 * i) (dr_in w (dr_cnt w + i))) [0..<k] \<and>
     dr_cnt (snd (stm32_rng_read m wait w)) = dr_cnt w + k \<and>
     4 * k \<le> m - 1 \<and>
     fst (stm32_rng_read m wait w) =
       (if (word_of_nat (4 * k) :: u32) \<noteq> 0 \<or> \<not> wait
        then sint (word_of_nat (4 * k) :: u32) else - EIO) \<and>
     (\<forall>a. 4 * k \<le> a \<longrightarrow> mem (snd (stm32_rng_read m wait w)) a = mem w a)"
proof -
  let ?r = "read_loop wait m 0 0 (acquired w)"
  let ?f = "stm32_rng_read m wait w"
  have f: "?f = (if fst ?r \<noteq> 0 \<or> \<not> wait then sint (fst ?r) else - EIO,
                 released (cr_reg w) (snd ?r))"
    by (rule stm32_rng_read_unfold)
  from read_loop_count [of wait m 0 0 "acquired w"] obtain k where
    k: "dr_cnt (snd ?r) = dr_cnt w + k" "fst ?r = word_of_nat (4 * k)" "4 * k \<le> m - 1"
       "\<forall>a. 4 * k \<le> a \<longrightarrow> mem (snd ?r) a = mem w a"
    by auto
  from read_loop_stores [of wait m 0 0 "acquired w"] obtain k' es where
    s: "dr_cnt (snd ?r) = dr_cnt w + k'" "trace (snd ?r) = trace (acquired w) @ es"
       "filter is_store es = map (\<lambda>i. Store (4 * i) (dr_in w (dr_cnt w + i))) [0..<k']"
    by auto
  from read_loop_events [of wait m 0 0 "acquired w"] obtain es' where
    e: "trace (snd ?r) = trace (acquired w) @ es'" "list_all loop_event es'"
       "stops_at_fault es'"
    by auto
  have kk: "k' = k" using k(1) s(1) by simp
  have ee: "es' = es" using s(2) e(1) by simp
  have "trace (snd ?f) = trace w @
      ([ClkEnable, Readl RNG_CR (cr_reg w), Writel (cr_reg w OR RNG_CR_RNGEN) RNG_CR] @ es
         @ [Writel (cr_reg w) RNG_CR, ClkDisable])"
    using s(2) by (simp add: f)
  then have ev: "events w (snd ?f) =
      [ClkEnable, Readl RNG_CR (cr_reg w), Writel (cr_reg w OR RNG_CR_RNGEN) RNG_CR] @ es
         @ [Writel (cr_reg w) RNG_CR, ClkDisable]"
    by (rule events_append)
  have dr: "dr_cnt (snd ?f) = dr_cnt w + k" using k(1) by (simp add: f)
  have res: "fst ?f = (if (word_of_nat (4 * k) :: u32) \<noteq> 0 \<or> \<not> wait
        then sint (word_of_nat (4 * k) :: u32) else - EIO)"
    using k(2) by (simp add: f)
  have mm: "\<forall>a. 4 * k \<le> a \<longrightarrow> mem (snd ?f) a = mem w a"
    using k(4) by (simp add: f)
  show ?thesis
    using ev e(2,3) s(3) dr k(3) res mm unfolding kk ee
    by (intro exI [of _ k] exI [of _ es]) blast
qed

lemma fill_frame:
  "cr_reg (snd (stm32_rng_read m wait w)) = cr_reg w"
  "clk_enabled (snd (stm32_rng_read m wait w)) = clk_enabled w"
  "clk_prepared (snd (stm32_rng_read m wait w)) = clk_prepared w"
  "sr_in (snd (stm32_rng_read m wait w)) = sr_in w"
  "dr_in (snd (stm32_rng_read m wait w)) = dr_in w"
  using read_loop_frame [of wait m 0 0 "acquired w"]
  by (simp_all add: stm32_rng_read_unfold)

lemma sint_word_of_nat: "n < 2 ^ 31 \<Longrightarrow> sint (word_of_nat n :: u32) = int n"
  by (simp add: signed_of_nat signed_take_bit_int_eq_self)

lemma fill_bytes:
  "\<exists>k. bytes_written w (snd (stm32_rng_read m wait w)) = 4 * k \<and>
       4 * k \<le> m - 1 \<and>
       dr_cnt (snd (stm32_rng_read m wait w)) = dr_cnt w + k \<and>
       filter is_store (events w (snd (stm32_rng_read m wait w))) =
         map (\<lambda>i. Store (4 * i) (dr_in w (dr_cnt w + i))) [0..<k] \<and>
       fst (stm32_rng_read m wait w) =
         (if (word_of_nat (4 * k) :: u32) \<noteq> 0 \<or> \<not> wait
          then sint (word_of_nat (4 * k) :: u32) else - EIO) \<and>
       (\<forall>a. 4 * k \<le> a \<longrightarrow> mem (snd (stm32_rng_read m wait w)) a = mem w a)"
proof -
  from fill_summary [of w m wait] obtain k es where
    s: "events w (snd (stm32_rng_read m wait w)) =
          [ClkEnable, Readl RNG_CR (cr_reg w), Writel (cr_reg w OR RNG_CR_RNGEN) RNG_CR] @ es
            @ [Writel (cr_reg w) RNG_CR, ClkDisable]"
       "filter is_store es = map (\<lambda>i. Store (4 * i) (dr_in w (dr_cnt w + i))) [0..<k]"
       "dr_cnt (snd (stm32_rng_read m wait w)) = dr_cnt w + k"
       "4 * k \<le> m - 1"
       "fst (stm32_rng_read m wait w) =
         (if (word_of_nat (4 * k) :: u32) \<noteq> 0 \<or> \<not> wait
          then sint (word_of_nat (4 * k) :: u32) else - EIO)"
       "\<forall>a. 4 * k \<le> a \<longrightarrow> mem (snd (stm32_rng_read m wait w)) a = mem w a"
    by blast
  have f: "filter is_store (events w (snd (stm32_rng_read m wait w))) =
       map (\<lambda>i. Store (4 * i) (dr_in w (dr_cnt w + i))) [0..<k]"
    by (simp add: s(1) s(2))
  then have "bytes_written w (snd (stm32_rng_read m wait w)) = 4 * k"
    by (simp add: bytes_written_def)
  with f s(3-6) show ?thesis by blast
qed

subsection \<open>Single passes of the drain loop\<close>

lemma poll_nonzero:
  "sr_in w (sr_cnt w) \<noteq> 0 \<Longrightarrow> poll wait w = (sr_in w (sr_cnt w), polled 0 w)"
  by (simp add: poll_def readl_SR)

lemma is_fault_nonzero: "is_fault sr \<Longrightarrow> sr \<noteq> 0"
  by (auto simp: is_fault_def)

lemma data_ready_nonzero: "data_ready sr \<Longrightarrow> sr \<noteq> 0"
  by (auto simp: data_ready_def)

lemma seed_error_is_fault: "sr AND RNG_SR_SEIS \<noteq> 0 \<Longrightarrow> is_fault sr"
  by (simp add: is_fault_def bit.conj_disj_distrib or_eq_0_iff)

lemma read_loop_step:
  "4 < m \<Longrightarrow> sr_in w (sr_cnt w) \<noteq> 0 \<Longrightarrow> \<not> is_fault (sr_in w (sr_cnt w)) \<Longrightarrow>
   read_loop wait m d rv w = read_loop wait (m - 4) (d + 4) (rv + 4) (drained d (polled 0 w))"
  by (subst read_loop_unfold) (simp add: poll_nonzero)

lemma read_loop_fault:
  "4 < m \<Longrightarrow> is_fault (sr_in w (sr_cnt w)) \<Longrightarrow>
   read_loop wait m d rv w = (rv, log Warn (polled 0 w))"
  by (subst read_loop_unfold) (simp add: poll_nonzero is_fault_nonzero)

lemma read_loop_stop: "m \<le> 4 \<Longrightarrow> read_loop wait m d rv w = (rv, w)"
  by (subst read_loop_unfold) simp

lemma events_stop_at_fault:
  "stops_at_fault (events w (snd (stm32_rng_read m wait w)))"
proof -
  from fill_summary [of w m wait] obtain es where
    s: "events w (snd (stm32_rng_read m wait w)) =
          [ClkEnable, Readl RNG_CR (cr_reg w), Writel (cr_reg w OR RNG_CR_RNGEN) RNG_CR] @ es
            @ [Writel (cr_reg w) RNG_CR, ClkDisable]"
       "stops_at_fault es"
    by blast
  have "stops_at_fault (es @ [Writel (cr_reg w) RNG_CR, ClkDisable])"
    using s(2) by (rule stops_at_fault_append) simp
  then show ?thesis by (simp add: s(1) RNG_CR_def RNG_SR_def)
qed

lemma two_words_then_fault:
  assumes "data_ready (sr_in w (sr_cnt w))" "\<not> is_fault (sr_in w (sr_cnt w))"
    and "data_ready (sr_in w (sr_cnt w + 1))" "\<not> is_fault (sr_in w (sr_cnt w + 1))"
    and "sr_in w (sr_cnt w + 2) AND RNG_SR_SEIS \<noteq> 0"
  shows "read_loop True 16 0 0 (acquired w) =
    (8, log Warn (polled 0 (drained 4 (polled 0 (drained 0 (polled 0 (acquired w)))))))"
proof -
  have "read_loop True 16 0 0 (acquired w)
      = read_loop True 12 4 4 (drained 0 (polled 0 (acquired w)))"
    using assms(1,2) by (subst read_loop_step) (simp_all add: data_ready_nonzero)
  also have "\<dots> = read_loop True 8 8 8 (drained 4 (polled 0 (drained 0 (polled 0 (acquired w)))))"
    using assms(3,4) by (subst read_loop_step) (simp_all add: data_ready_nonzero)
  also have "\<dots> = (8, log Warn (polled 0 (drained 4 (polled 0 (drained 0 (polled 0 (acquired w)))))))"
    using assms(5) by (subst read_loop_fault) (simp_all add: seed_error_is_fault add_2_eq_Suc')
  finally show ?thesis .
qed

subsection \<open>The timeout budget\<close>

lemma busy_wait_budget: "sr_cnt (snd (busy_wait RNG_TIMEOUT w)) \<le> sr_cnt w + 500"
proof -
  from busy_wait_effect [of RNG_TIMEOUT w] obtain j where
    "busy_wait RNG_TIMEOUT w = (sr_in w (sr_cnt w + j), polled j w)"
    "j \<le> unat (RNG_TIMEOUT - 1)"
    by blast
  then show ?thesis by (simp add: RNG_TIMEOUT_def)
qed

lemma fill_sr_cnt:
  "sr_cnt (snd (stm32_rng_read m wait w)) \<le> sr_cnt w + 501 * ((m - 1) div 4)"
  using read_loop_sr_cnt [of "acquired w" wait m 0 0]
  by (simp add: stm32_rng_read_unfold)

lemma poll_timeout:
  assumes "\<forall>i\<le>500. sr_in w (sr_cnt w + i) = 0"
  shows "poll True w = (0, polled 500 w)"
proof -
  from poll_effect [of True w] obtain j where
    j: "poll True w = (sr_in w (sr_cnt w + j), polled j w)" "j \<le> 500"
       "sr_in w (sr_cnt w + j) = 0 \<and> True \<longrightarrow> j = 500"
    by blast
  have "sr_in w (sr_cnt w + j) = 0" using assms j(2) by simp
  with j(1,3) show ?thesis by simp
qed

lemma read_loop_timeout:
  assumes "\<forall>i\<le>500. sr_in w (sr_cnt w + i) = 0" "4 < m"
  shows "read_loop True m d rv w = (rv, polled 500 w)"
  using assms(2) by (subst read_loop_unfold) (simp add: poll_timeout [OF assms(1)] is_fault_def)

text \<open>
  In blocking mode, a peripheral whose status words are all zero or carry an error flag
  gets no data word read and nothing stored: the call ends with \<open>-EIO\<close> after at most
  501 status reads. When the words are all zero and the loop runs, it ends after exactly
  501: the first poll and the 500 of the budget.
\<close>

lemma read_loop_zero_or_fault:
  assumes zf: "\<forall>i\<le>500. sr_in w (sr_cnt w + i) = 0 \<or> is_fault (sr_in w (sr_cnt w + i))"
  shows "\<exists>w'. read_loop True m d rv w = (rv, w') \<and> dr_cnt w' = dr_cnt w \<and> mem w' = mem w \<and>
              sr_cnt w' \<le> sr_cnt w + 501"
proof (cases "4 < m")
  case False
  then have "read_loop True m d rv w = (rv, w)" by (simp add: read_loop_stop)
  then show ?thesis by simp
next
  case True
  from poll_effect [of True w] obtain j where
    j: "poll True w = (sr_in w (sr_cnt w + j), polled j w)" "j \<le> 500"
    by blast
  let ?sr = "sr_in w (sr_cnt w + j)"
  from zf j(2) have c: "?sr = 0 \<or> is_fault ?sr" by simp
  show ?thesis
  proof (cases "is_fault ?sr")
    case True
    then have "read_loop True m d rv w = (rv, log Warn (polled j w))"
      using \<open>4 < m\<close> j(1) by (subst read_loop_unfold) simp
    then show ?thesis using j(2) by simp
  next
    case False
    with c have "?sr = 0" by simp
    then have "read_loop True m d rv w = (rv, polled j w)"
      using \<open>4 < m\<close> j(1) False by (subst read_loop_unfold) simp
    then show ?thesis using j(2) by simp
  qed
qed

lemma fill_zero_or_fault:
  assumes "\<forall>i\<le>500. sr_in w (sr_cnt w + i) = 0 \<or> is_fault (sr_in w (sr_cnt w + i))"
  shows "fst (stm32_rng_read m True w) = - EIO \<and>
         dr_cnt (snd (stm32_rng_read m True w)) = dr_cnt w \<and>
         mem (snd (stm32_rng_read m True w)) = mem w \<and>
         sr_cnt (snd (stm32_rng_read m True w)) \<le> sr_cnt w + 501"
proof -
  from assms have
    "\<forall>i\<le>500. sr_in (acquired w) (sr_cnt (acquired w) + i) = 0
        \<or> is_fault (sr_in (acquired w) (sr_cnt (acquired w) + i))"
    by simp
  from read_loop_zero_or_fault [OF this, of m 0 0] obtain w' where
    w': "read_loop True m 0 0 (acquired w) = (0, w')" "dr_cnt w' = dr_cnt w" "mem w' = mem w"
        "sr_cnt w' \<le> sr_cnt w + 501"
    by auto
  show ?thesis using w'(2-4) by (simp add: stm32_rng_read_unfold w'(1))
qed

lemma fill_exhausts_budget:
  assumes "\<forall>i\<le>500. sr_in w (sr_cnt w + i) = 0" "4 < m"
  shows "fst (stm32_rng_read m True w) = - EIO \<and>
         sr_cnt (snd (stm32_rng_read m True w)) = sr_cnt w + 501"
proof -
  from assms(1) have za: "\<forall>i\<le>500. sr_in (acquired w) (sr_cnt (acquired w) + i) = 0" by simp
  have "read_loop True m 0 0 (acquired w) = (0, polled 500 (acquired w))"
    using read_loop_timeout [OF za assms(2)] .
  then show ?thesis by (simp add: stm32_rng_read_unfold)
qed

subsection \<open>Bits of the register constants\<close>

lemma bit_RNGEN: "bit RNG_CR_RNGEN n \<longleftrightarrow> n = 2"
proof -
  have e: "RNG_CR_RNGEN = 2 ^ 2" by (simp add: RNG_CR_RNGEN_def)
  show ?thesis unfolding e bit_exp_iff by auto
qed

lemma bit_SEIS: "bit RNG_SR_SEIS n \<longleftrightarrow> n = 6"
proof -
  have e: "RNG_SR_SEIS = 2 ^ 6" by (simp add: RNG_SR_SEIS_def)
  show ?thesis unfolding e bit_exp_iff by auto
qed

lemma bit_CEIS: "bit RNG_SR_CEIS n \<longleftrightarrow> n = 5"
proof -
  have e: "RNG_SR_CEIS = 2 ^ 5" by (simp add: RNG_SR_CEIS_def)
  show ?thesis unfolding e bit_exp_iff by auto
qed

lemma bit_clear_error_flags:
  "bit (sr AND NOT (RNG_SR_SEIS OR RNG_SR_CEIS)) n \<longleftrightarrow> bit sr n \<and> n \<noteq> 5 \<and> n \<noteq> 6"
  by (auto simp: bit_and_iff bit_not_iff bit_or_iff bit_SEIS bit_CEIS dest: bit_imp_possible_bit)

section \<open>The claims\<close>

text \<open>
  C1. Whatever the hardware does and however the drain loop ends, the log of a call to
  \<open>stm32_rng_read\<close> is: enable the clock, read the control register, write that value
  with the generator-enable bit; then the loop, which only reads the status and data
  registers, stores and warns; then write the control register back to exactly the value
  read at the start, and last disable the clock. The control register and the enable
  count of the clock end as they began.
\<close>

theorem fill_restores_control_then_disables_clock:
  "\<exists>es. events w (snd (stm32_rng_read m wait w)) =
          [ClkEnable, Readl RNG_CR (cr_reg w), Writel (cr_reg w OR RNG_CR_RNGEN) RNG_CR] @ es
            @ [Writel (cr_reg w) RNG_CR, ClkDisable] \<and>
        list_all loop_event es \<and>
        cr_reg (snd (stm32_rng_read m wait w)) = cr_reg w \<and>
        clk_enabled (snd (stm32_rng_read m wait w)) = clk_enabled w"
  using fill_summary [of w m wait] fill_frame(1,2) [of m wait w] by blast

theorem fill_restores_control_then_disables_clock_witness:
  "events ((sim (\<lambda>n. 64) (\<lambda>n. 0))\<lparr>cr_reg := 8\<rparr>)
     (snd (stm32_rng_read 8 True ((sim (\<lambda>n. 64) (\<lambda>n. 0))\<lparr>cr_reg := 8\<rparr>))) =
     [ClkEnable, Readl RNG_CR 8, Writel 12 RNG_CR, Readl RNG_SR 64, Warn,
      Writel 8 RNG_CR, ClkDisable] \<and>
   cr_reg (snd (stm32_rng_read 8 True ((sim (\<lambda>n. 64) (\<lambda>n. 0))\<lparr>cr_reg := 8\<rparr>))) = 8 \<and>
   events (sim (\<lambda>n. 0) (\<lambda>n. 0)) (snd (stm32_rng_read 8 False (sim (\<lambda>n. 0) (\<lambda>n. 0)))) =
     [ClkEnable, Readl RNG_CR 0, Writel RNG_CR_RNGEN RNG_CR, Readl RNG_SR 0,
      Writel 0 RNG_CR, ClkDisable]"
  using fill_restores_control_then_disables_clock
          [of "(sim (\<lambda>n. 64) (\<lambda>n. 0))\<lparr>cr_reg := 8\<rparr>" 8 True]
        fill_restores_control_then_disables_clock [of "sim (\<lambda>n. 0) (\<lambda>n. 0)" 8 False]
  by (simp add: run_defs)

text \<open>
  C2. The result follows the three-case policy on the accumulated byte count: a positive
  count is returned; a zero count is 0 when not blocking and \<open>-EIO\<close> when blocking. The
  count is the number of bytes stored, as the \<open>int\<close> accumulator holds it; for every
  request below \<open>2 ^ 31\<close> bytes that is the number itself.
\<close>

theorem fill_result_policy:
  assumes "stm32_rng_read m wait w = (res, w')"
  shows "(0 < sint (accumulated w w') \<longrightarrow> res = sint (accumulated w w')) \<and>
         (accumulated w w' = 0 \<and> \<not> wait \<longrightarrow> res = 0) \<and>
         (accumulated w w' = 0 \<and> wait \<longrightarrow> res = - EIO \<and> res < 0) \<and>
         (m < 2 ^ 31 \<longrightarrow> sint (accumulated w w') = int (bytes_written w w'))"
proof -
  have w': "w' = snd (stm32_rng_read m wait w)" and res: "res = fst (stm32_rng_read m wait w)"
    using assms by simp_all
  from fill_bytes [of w m wait] obtain k where
    k: "bytes_written w w' = 4 * k" "4 * k \<le> m - 1"
       "res = (if (word_of_nat (4 * k) :: u32) \<noteq> 0 \<or> \<not> wait
          then sint (word_of_nat (4 * k) :: u32) else - EIO)"
    unfolding w' res by blast
  have acc: "accumulated w w' = word_of_nat (4 * k)"
    by (simp add: accumulated_def k(1))
  have "m < 2 ^ 31 \<longrightarrow> sint (accumulated w w') = int (bytes_written w w')"
  proof
    assume "m < 2 ^ 31"
    with k(2) have "4 * k < 2 ^ 31" by simp
    then show "sint (accumulated w w') = int (bytes_written w w')"
      unfolding acc k(1) by (rule sint_word_of_nat)
  qed
  moreover have "0 < sint (accumulated w w') \<longrightarrow> res = sint (accumulated w w')"
    unfolding acc k(3) by auto
  moreover have "accumulated w w' = 0 \<and> \<not> wait \<longrightarrow> res = 0"
    unfolding acc k(3) by auto
  moreover have "accumulated w w' = 0 \<and> wait \<longrightarrow> res = - EIO \<and> res < 0"
    unfolding acc k(3) by (auto simp: EIO_def)
  ultimately show ?thesis by blast
qed

theorem fill_result_policy_witness:
  "0 < sint (accumulated (sim (\<lambda>n. 1) (\<lambda>n. 7)) (snd (stm32_rng_read 8 True (sim (\<lambda>n. 1) (\<lambda>n. 7))))) \<and>
   fst (stm32_rng_read 8 True (sim (\<lambda>n. 1) (\<lambda>n. 7))) = 4 \<and>
   accumulated (sim (\<lambda>n. 0) (\<lambda>n. 7)) (snd (stm32_rng_read 8 False (sim (\<lambda>n. 0) (\<lambda>n. 7)))) = 0 \<and>
   fst (stm32_rng_read 8 False (sim (\<lambda>n. 0) (\<lambda>n. 7))) = 0 \<and>
   accumulated (sim (\<lambda>n. 64) (\<lambda>n. 7)) (snd (stm32_rng_read 8 True (sim (\<lambda>n. 64) (\<lambda>n. 7)))) = 0 \<and>
   fst (stm32_rng_read 8 True (sim (\<lambda>n. 64) (\<lambda>n. 7))) = - EIO"
  using fill_result_policy [of 8 True "sim (\<lambda>n. 1) (\<lambda>n. 7)"
          "fst (stm32_rng_read 8 True (sim (\<lambda>n. 1) (\<lambda>n. 7)))"
          "snd (stm32_rng_read 8 True (sim (\<lambda>n. 1) (\<lambda>n. 7)))"]
        fill_result_policy [of 8 False "sim (\<lambda>n. 0) (\<lambda>n. 7)"
          "fst (stm32_rng_read 8 False (sim (\<lambda>n. 0) (\<lambda>n. 7)))"
          "snd (stm32_rng_read 8 False (sim (\<lambda>n. 0) (\<lambda>n. 7)))"]
        fill_result_policy [of 8 True "sim (\<lambda>n. 64) (\<lambda>n. 7)"
          "fst (stm32_rng_read 8 True (sim (\<lambda>n. 64) (\<lambda>n. 7)))"
          "snd (stm32_rng_read 8 True (sim (\<lambda>n. 64) (\<lambda>n. 7)))"]
  by (simp add: run_defs accumulated_def bytes_written_def)

text \<open>
  C3. The claim: a call for 4 bytes in blocking mode, in front of a peripheral that
  reports Data-Ready at the first poll, returns 4 and the first word of the buffer is the
  data register's value. The code at that input: the loop guard \<open>max > sizeof(u32)\<close>
  is false for \<open>max = 4\<close>, so neither the status nor the data register is read, the
  buffer keeps its content and the call returns \<open>-EIO\<close>. One byte more of space and
  the same peripheral gives what the claim describes.
\<close>

theorem fill_four_bytes_ready_returns_EIO:
  "data_ready RNG_SR_DRDY \<and>
   fst (stm32_rng_read 4 True (sim (\<lambda>n. RNG_SR_DRDY) (\<lambda>n. 0xDEADBEEF))) = - EIO \<and>
   events (sim (\<lambda>n. RNG_SR_DRDY) (\<lambda>n. 0xDEADBEEF))
     (snd (stm32_rng_read 4 True (sim (\<lambda>n. RNG_SR_DRDY) (\<lambda>n. 0xDEADBEEF)))) =
     [ClkEnable, Readl RNG_CR 0, Writel RNG_CR_RNGEN RNG_CR, Writel 0 RNG_CR, ClkDisable] \<and>
   load_u32 (mem (snd (stm32_rng_read 4 True (sim (\<lambda>n. RNG_SR_DRDY) (\<lambda>n. 0xDEADBEEF))))) 0 = 0 \<and>
   fst (stm32_rng_read 5 True (sim (\<lambda>n. RNG_SR_DRDY) (\<lambda>n. 0xDEADBEEF))) = 4 \<and>
   load_u32 (mem (snd (stm32_rng_read 5 True (sim (\<lambda>n. RNG_SR_DRDY) (\<lambda>n. 0xDEADBEEF))))) 0
     = 0xDEADBEEF"
  by (simp add: run_defs data_ready_def load_u32_def)

theorem fill_four_bytes_ready_returns_EIO_witness:
  "fst (stm32_rng_read 4 True (sim (\<lambda>n. RNG_SR_DRDY) (\<lambda>n. 0xDEADBEEF))) = - 5"
  using fill_four_bytes_ready_returns_EIO by (simp add: EIO_def)

text \<open>
  C4. For every requested length \<open>L\<close> and every hardware behaviour, the bytes stored
  are at most \<open>L div 4 * 4\<close>; the stores are whole 32-bit words at the offsets 0, 4,
  8, ... in this order, each holding the next word the data register presented; every
  byte of the buffer from the end of the last stored word on, and so every byte at or
  after \<open>L div 4 * 4\<close>, is unchanged.
\<close>

theorem fill_writes_whole_words_below_bound:
  assumes "stm32_rng_read L wait w = (res, w')"
  shows "bytes_written w w' \<le> (L div 4) * 4 \<and>
         filter is_store (events w w') =
           map (\<lambda>i. Store (4 * i) (dr_in w (dr_cnt w + i))) [0..<bytes_written w w' div 4] \<and>
         (\<forall>a. bytes_written w w' \<le> a \<longrightarrow> mem w' a = mem w a) \<and>
         (\<forall>a. (L div 4) * 4 \<le> a \<longrightarrow> mem w' a = mem w a)"
proof -
  have w': "w' = snd (stm32_rng_read L wait w)" using assms by simp
  from fill_bytes [of w L wait] obtain k where
    k: "bytes_written w w' = 4 * k" "4 * k \<le> L - 1"
       "filter is_store (events w w') =
          map (\<lambda>i. Store (4 * i) (dr_in w (dr_cnt w + i))) [0..<k]"
       "\<forall>a. 4 * k \<le> a \<longrightarrow> mem w' a = mem w a"
    unfolding w' by blast
  have le: "4 * k \<le> (L div 4) * 4" using k(2) by arith
  have "\<forall>a. (L div 4) * 4 \<le> a \<longrightarrow> mem w' a = mem w a"
    using k(4) le by (meson le_trans)
  then show ?thesis using k le by simp
qed

theorem fill_writes_whole_words_below_bound_witness:
  "bytes_written ((sim (\<lambda>n. 1) (\<lambda>n. 7))\<lparr>mem := \<lambda>a. 0xAA\<rparr>)
     (snd (stm32_rng_read 11 False ((sim (\<lambda>n. 1) (\<lambda>n. 7))\<lparr>mem := \<lambda>a. 0xAA\<rparr>))) = 8 \<and>
   filter is_store (events ((sim (\<lambda>n. 1) (\<lambda>n. 7))\<lparr>mem := \<lambda>a. 0xAA\<rparr>)
     (snd (stm32_rng_read 11 False ((sim (\<lambda>n. 1) (\<lambda>n. 7))\<lparr>mem := \<lambda>a. 0xAA\<rparr>))))
     = [Store 0 7, Store 4 7] \<and>
   mem (snd (stm32_rng_read 11 False ((sim (\<lambda>n. 1) (\<lambda>n. 7))\<lparr>mem := \<lambda>a. 0xAA\<rparr>))) 4 = 7 \<and>
   mem (snd (stm32_rng_read 11 False ((sim (\<lambda>n. 1) (\<lambda>n. 7))\<lparr>mem := \<lambda>a. 0xAA\<rparr>))) 8 = 0xAA \<and>
   mem (snd (stm32_rng_read 11 False ((sim (\<lambda>n. 1) (\<lambda>n. 7))\<lparr>mem := \<lambda>a. 0xAA\<rparr>))) 10 = 0xAA"
  using fill_writes_whole_words_below_bound
          [of 11 False "(sim (\<lambda>n. 1) (\<lambda>n. 7))\<lparr>mem := \<lambda>a. 0xAA\<rparr>"
            "fst (stm32_rng_read 11 False ((sim (\<lambda>n. 1) (\<lambda>n. 7))\<lparr>mem := \<lambda>a. 0xAA\<rparr>))"
            "snd (stm32_rng_read 11 False ((sim (\<lambda>n. 1) (\<lambda>n. 7))\<lparr>mem := \<lambda>a. 0xAA\<rparr>))"]
  by (simp add: run_defs bytes_written_def)

text \<open>
  C5. In every run, after the first status read that shows Seed-Error or Clock-Error
  nothing more is read from any register and nothing more is stored; the bytes stored
  before it are the result (for requests below \<open>2 ^ 31\<close> bytes, where the \<open>int\<close>
  result can hold every count). In particular, when the first two status reads show
  Data-Ready without an error flag and the third shows Seed-Error, a blocking call for 16
  bytes returns 8, has read exactly two data words, and its log ends with the third
  status read, the warning and the release.
\<close>

theorem fill_stops_at_fault:
  "stops_at_fault (events w (snd (stm32_rng_read m wait w))) \<and>
   (m < 2 ^ 31 \<and> 0 < bytes_written w (snd (stm32_rng_read m wait w)) \<longrightarrow>
      fst (stm32_rng_read m wait w) = int (bytes_written w (snd (stm32_rng_read m wait w)))) \<and>
   (data_ready (sr_in w (sr_cnt w)) \<and> \<not> is_fault (sr_in w (sr_cnt w)) \<and>
    data_ready (sr_in w (sr_cnt w + 1)) \<and> \<not> is_fault (sr_in w (sr_cnt w + 1)) \<and>
    sr_in w (sr_cnt w + 2) AND RNG_SR_SEIS \<noteq> 0 \<longrightarrow>
      fst (stm32_rng_read 16 True w) = 8 \<and>
      dr_cnt (snd (stm32_rng_read 16 True w)) = dr_cnt w + 2 \<and>
      events w (snd (stm32_rng_read 16 True w)) =
        [ClkEnable, Readl RNG_CR (cr_reg w), Writel (cr_reg w OR RNG_CR_RNGEN) RNG_CR,
         Readl RNG_SR (sr_in w (sr_cnt w)),
         Readl RNG_DR (dr_in w (dr_cnt w)), Store 0 (dr_in w (dr_cnt w)),
         Readl RNG_SR (sr_in w (sr_cnt w + 1)),
         Readl RNG_DR (dr_in w (dr_cnt w + 1)), Store 4 (dr_in w (dr_cnt w + 1)),
         Readl RNG_SR (sr_in w (sr_cnt w + 2)), Warn,
         Writel (cr_reg w) RNG_CR, ClkDisable])"
proof (intro conjI impI)
  show "stops_at_fault (events w (snd (stm32_rng_read m wait w)))"
    by (rule events_stop_at_fault)
next
  assume a: "m < 2 ^ 31 \<and> 0 < bytes_written w (snd (stm32_rng_read m wait w))"
  from fill_bytes [of w m wait] obtain k where
    k: "bytes_written w (snd (stm32_rng_read m wait w)) = 4 * k" "4 * k \<le> m - 1"
       "fst (stm32_rng_read m wait w) =
         (if (word_of_nat (4 * k) :: u32) \<noteq> 0 \<or> \<not> wait
          then sint (word_of_nat (4 * k) :: u32) else - EIO)"
    by blast
  from a k(1,2) have lt: "4 * k < 2 ^ 31" and pos: "0 < 4 * k" by linarith+
  have s: "sint (word_of_nat (4 * k) :: u32) = int (4 * k)"
    using lt by (rule sint_word_of_nat)
  then have "(word_of_nat (4 * k) :: u32) \<noteq> 0" using pos by auto
  then show "fst (stm32_rng_read m wait w)
      = int (bytes_written w (snd (stm32_rng_read m wait w)))"
    unfolding k(3) k(1) using s by simp
next
  assume a: "data_ready (sr_in w (sr_cnt w)) \<and> \<not> is_fault (sr_in w (sr_cnt w)) \<and>
    data_ready (sr_in w (sr_cnt w + 1)) \<and> \<not> is_fault (sr_in w (sr_cnt w + 1)) \<and>
    sr_in w (sr_cnt w + 2) AND RNG_SR_SEIS \<noteq> 0"
  then have loop: "read_loop True 16 0 0 (acquired w) =
    (8, log Warn (polled 0 (drained 4 (polled 0 (drained 0 (polled 0 (acquired w)))))))"
    by (intro two_words_then_fault) simp_all
  show "fst (stm32_rng_read 16 True w) = 8"
    by (simp add: stm32_rng_read_unfold loop)
  show "dr_cnt (snd (stm32_rng_read 16 True w)) = dr_cnt w + 2"
    by (simp add: stm32_rng_read_unfold loop)
  have "trace (snd (stm32_rng_read 16 True w)) = trace w @
        [ClkEnable, Readl RNG_CR (cr_reg w), Writel (cr_reg w OR RNG_CR_RNGEN) RNG_CR,
         Readl RNG_SR (sr_in w (sr_cnt w)),
         Readl RNG_DR (dr_in w (dr_cnt w)), Store 0 (dr_in w (dr_cnt w)),
         Readl RNG_SR (sr_in w (sr_cnt w + 1)),
         Readl RNG_DR (dr_in w (dr_cnt w + 1)), Store 4 (dr_in w (dr_cnt w + 1)),
         Readl RNG_SR (sr_in w (sr_cnt w + 2)), Warn,
         Writel (cr_reg w) RNG_CR, ClkDisable]"
    by (simp add: stm32_rng_read_unfold loop add_2_eq_Suc')
  then show "events w (snd (stm32_rng_read 16 True w)) =
        [ClkEnable, Readl RNG_CR (cr_reg w), Writel (cr_reg w OR RNG_CR_RNGEN) RNG_CR,
         Readl RNG_SR (sr_in w (sr_cnt w)),
         Readl RNG_DR (dr_in w (dr_cnt w)), Store 0 (dr_in w (dr_cnt w)),
         Readl RNG_SR (sr_in w (sr_cnt w + 1)),
         Readl RNG_DR (dr_in w (dr_cnt w + 1)), Store 4 (dr_in w (dr_cnt w + 1)),
         Readl RNG_SR (sr_in w (sr_cnt w + 2)), Warn,
         Writel (cr_reg w) RNG_CR, ClkDisable]"
    by (rule events_append)
qed

theorem fill_stops_at_fault_witness:
  "data_ready 1 \<and> \<not> is_fault 1 \<and> (64 :: u32) AND RNG_SR_SEIS \<noteq> 0 \<and>
   stops_at_fault (events (sim (\<lambda>n. if n < 2 then 1 else 64) (\<lambda>n. 7))
     (snd (stm32_rng_read 16 True (sim (\<lambda>n. if n < 2 then 1 else 64) (\<lambda>n. 7))))) \<and>
   fst (stm32_rng_read 16 True (sim (\<lambda>n. if n < 2 then 1 else 64) (\<lambda>n. 7))) = 8 \<and>
   dr_cnt (snd (stm32_rng_read 16 True (sim (\<lambda>n. if n < 2 then 1 else 64) (\<lambda>n. 7)))) = 2"
  using fill_stops_at_fault [of "sim (\<lambda>n. if n < 2 then 1 else 64) (\<lambda>n. 7)" 16 True]
  by (simp add: run_defs data_ready_def is_fault_def bytes_written_def)

text \<open>
  C6. The claim: the call terminates for every hardware behaviour, the busy-wait being a
  counted loop of 500 iterations, so that in blocking mode a peripheral that never
  reports Data-Ready gets \<open>-EIO\<close> with 0 bytes written once the budget is used up.
  Both loops terminate, a busy-wait makes at most 500 status reads and a call at most 501
  for each word of space (\<open>busy_wait_budget\<close>, \<open>fill_sr_cnt\<close>), and the outcome is as
  claimed whenever the status words are zero or carry an error flag
  (\<open>fill_zero_or_fault\<close>, \<open>fill_exhausts_budget\<close>). The code at a peripheral that never
  reports Data-Ready and presents status \<open>0x02\<close>: the status word is not 0, so the
  busy-wait is skipped, the data register is read and stored, and the blocking call
  returns 4 after a single status read.
\<close>

theorem fill_blocking_never_ready_returns_data:
  "\<not> data_ready 2 \<and> \<not> is_fault 2 \<and>
   fst (stm32_rng_read 8 True (sim (\<lambda>n. 2) (\<lambda>n. 0xDEADBEEF))) = 4 \<and>
   bytes_written (sim (\<lambda>n. 2) (\<lambda>n. 0xDEADBEEF))
     (snd (stm32_rng_read 8 True (sim (\<lambda>n. 2) (\<lambda>n. 0xDEADBEEF)))) = 4 \<and>
   events (sim (\<lambda>n. 2) (\<lambda>n. 0xDEADBEEF))
     (snd (stm32_rng_read 8 True (sim (\<lambda>n. 2) (\<lambda>n. 0xDEADBEEF)))) =
     [ClkEnable, Readl RNG_CR 0, Writel RNG_CR_RNGEN RNG_CR,
      Readl RNG_SR 2, Readl RNG_DR 0xDEADBEEF, Store 0 0xDEADBEEF,
      Writel 0 RNG_CR, ClkDisable]"
  by (simp add: run_defs data_ready_def is_fault_def bytes_written_def)

theorem fill_blocking_never_ready_returns_data_witness:
  "fst (stm32_rng_read 8 True (sim (\<lambda>n. 2) (\<lambda>n. 0xDEADBEEF))) \<noteq> - EIO \<and>
   sr_cnt (snd (stm32_rng_read 8 True (sim (\<lambda>n. 2) (\<lambda>n. 0xDEADBEEF)))) = 1"
  using fill_blocking_never_ready_returns_data by (simp add: run_defs)

text \<open>
  C7. The claim: the data register is read only after a status snapshot with Data-Ready
  set. The code tests the whole status word against 0 (lines 68, 74 and 82) and never
  the Data-Ready bit: at status \<open>0x02\<close>, where Data-Ready and both error flags are
  clear, it reads the data register, stores the word and counts 4 bytes.
\<close>

theorem fill_reads_data_without_data_ready:
  "\<not> data_ready 2 \<and>
   events (sim (\<lambda>n. 2) (\<lambda>n. 0xDEADBEEF))
     (snd (stm32_rng_read 8 False (sim (\<lambda>n. 2) (\<lambda>n. 0xDEADBEEF)))) =
     [ClkEnable, Readl RNG_CR 0, Writel RNG_CR_RNGEN RNG_CR,
      Readl RNG_SR 2, Readl RNG_DR 0xDEADBEEF, Store 0 0xDEADBEEF,
      Writel 0 RNG_CR, ClkDisable] \<and>
   fst (stm32_rng_read 8 False (sim (\<lambda>n. 2) (\<lambda>n. 0xDEADBEEF))) = 4"
  by (simp add: run_defs data_ready_def)

theorem fill_reads_data_without_data_ready_witness:
  "dr_cnt (snd (stm32_rng_read 8 False (sim (\<lambda>n. 2) (\<lambda>n. 0xDEADBEEF)))) = 1"
  using fill_reads_data_without_data_ready by (simp add: run_defs)

text \<open>
  C8. The first three entries of the log of every call are: enable the clock, read the
  control register, write back the value read with the generator-enable bit OR-ed in.
  The value written has bit 2 set and agrees with the value read at every other bit.
\<close>

theorem fill_enable_is_read_modify_write:
  "take 3 (events w (snd (stm32_rng_read m wait w))) =
     [ClkEnable, Readl RNG_CR (cr_reg w), Writel (cr_reg w OR RNG_CR_RNGEN) RNG_CR] \<and>
   (\<forall>n. n \<noteq> 2 \<longrightarrow> bit (cr_reg w OR RNG_CR_RNGEN) n = bit (cr_reg w) n) \<and>
   bit (cr_reg w OR RNG_CR_RNGEN) 2"
proof -
  from fill_summary [of w m wait] obtain es where
    "events w (snd (stm32_rng_read m wait w)) =
          [ClkEnable, Readl RNG_CR (cr_reg w), Writel (cr_reg w OR RNG_CR_RNGEN) RNG_CR] @ es
            @ [Writel (cr_reg w) RNG_CR, ClkDisable]"
    by blast
  then have "take 3 (events w (snd (stm32_rng_read m wait w))) =
     [ClkEnable, Readl RNG_CR (cr_reg w), Writel (cr_reg w OR RNG_CR_RNGEN) RNG_CR]"
    by simp
  moreover have "\<forall>n. n \<noteq> 2 \<longrightarrow> bit (cr_reg w OR RNG_CR_RNGEN) n = bit (cr_reg w) n"
    by (simp add: bit_or_iff bit_RNGEN)
  moreover have "bit (cr_reg w OR RNG_CR_RNGEN) 2"
    by (simp add: bit_or_iff bit_RNGEN)
  ultimately show ?thesis by blast
qed

theorem fill_enable_is_read_modify_write_witness:
  "take 3 (events ((sim (\<lambda>n. 0) (\<lambda>n. 0))\<lparr>cr_reg := 8\<rparr>)
      (snd (stm32_rng_read 8 False ((sim (\<lambda>n. 0) (\<lambda>n. 0))\<lparr>cr_reg := 8\<rparr>)))) =
     [ClkEnable, Readl RNG_CR 8, Writel 12 RNG_CR] \<and>
   bit (12 :: u32) 3 \<and> bit (12 :: u32) 2"
  using fill_enable_is_read_modify_write [of "(sim (\<lambda>n. 0) (\<lambda>n. 0))\<lparr>cr_reg := 8\<rparr>" 8 False]
  by (simp add: run_defs)

text \<open>
  C9. After a successful \<open>stm32_rng_init\<close> followed at once by \<open>stm32_rng_cleanup\<close>
  the clock operations in the log are one prepare and then one unprepare, the
  preparation that \<open>init\<close> added is taken back, and a clock that was not prepared
  before is not prepared after. The enable count is untouched.
\<close>

theorem init_cleanup_round_trip:
  assumes "fst (stm32_rng_init w) = 0"
  shows "filter is_clk (events w (stm32_rng_cleanup (snd (stm32_rng_init w))))
           = [ClkPrepare, ClkUnprepare] \<and>
         clk_prepared (snd (stm32_rng_init w)) = clk_prepared w + 1 \<and>
         clk_prepared (stm32_rng_cleanup (snd (stm32_rng_init w))) = clk_prepared w \<and>
         (clk_prepared w = 0 \<longrightarrow>
            clk_prepared (stm32_rng_cleanup (snd (stm32_rng_init w))) = 0) \<and>
         clk_enabled (stm32_rng_cleanup (snd (stm32_rng_init w))) = clk_enabled w"
proof -
  have "clk_prepare_err w = 0"
    using assms by (simp add: stm32_rng_init_def clk_prepare_def split: if_splits)
  then show ?thesis
    by (simp add: stm32_rng_init_def stm32_rng_cleanup_def clk_prepare_def clk_unprepare_def
        readl_def writel_def log_def events_def RNG_SR_def RNG_CR_def)
qed

theorem init_cleanup_round_trip_witness:
  "fst (stm32_rng_init (sim (\<lambda>n. 96) (\<lambda>n. 0))) = 0 \<and>
   clk_prepared (sim (\<lambda>n. 96) (\<lambda>n. 0)) = 0 \<and>
   clk_prepared (snd (stm32_rng_init (sim (\<lambda>n. 96) (\<lambda>n. 0)))) = 1 \<and>
   clk_prepared (stm32_rng_cleanup (snd (stm32_rng_init (sim (\<lambda>n. 96) (\<lambda>n. 0))))) = 0"
proof -
  have ok: "fst (stm32_rng_init (sim (\<lambda>n. 96) (\<lambda>n. 0))) = 0"
    by (simp add: run_defs)
  show ?thesis
    using ok init_cleanup_round_trip [OF ok] by (simp add: sim_def)
qed

text \<open>
  C10. When the clock is prepared, \<open>stm32_rng_init\<close> returns 0 and its register
  accesses are one read of the status register and one write to it, of the value read
  with bits 5 and 6 (Clock-Error, Seed-Error) cleared and every other bit as read. When
  preparing the clock fails, it returns that error and its log holds the attempt to
  prepare and no register access.
\<close>

theorem init_clears_only_error_flags:
  "(clk_prepare_err w = 0 \<longrightarrow>
      fst (stm32_rng_init w) = 0 \<and>
      events w (snd (stm32_rng_init w)) =
        [ClkPrepare, Readl RNG_SR (sr_in w (sr_cnt w)),
         Writel (sr_in w (sr_cnt w) AND NOT (RNG_SR_SEIS OR RNG_SR_CEIS)) RNG_SR] \<and>
      (\<forall>n. bit (sr_in w (sr_cnt w) AND NOT (RNG_SR_SEIS OR RNG_SR_CEIS)) n
            = (bit (sr_in w (sr_cnt w)) n \<and> n \<noteq> 5 \<and> n \<noteq> 6))) \<and>
   (clk_prepare_err w \<noteq> 0 \<longrightarrow>
      fst (stm32_rng_init w) = clk_prepare_err w \<and>
      events w (snd (stm32_rng_init w)) = [ClkPrepare] \<and>
      sr_cnt (snd (stm32_rng_init w)) = sr_cnt w \<and>
      clk_prepared (snd (stm32_rng_init w)) = clk_prepared w)"
proof (intro conjI impI allI)
  fix n
  show "bit (sr_in w (sr_cnt w) AND NOT (RNG_SR_SEIS OR RNG_SR_CEIS)) n
            = (bit (sr_in w (sr_cnt w)) n \<and> n \<noteq> 5 \<and> n \<noteq> 6)"
    by (rule bit_clear_error_flags)
qed (simp_all add: stm32_rng_init_def clk_prepare_def readl_def writel_def log_def events_def
       RNG_SR_def RNG_CR_def)

theorem init_clears_only_error_flags_witness:
  "events (sim (\<lambda>n. 0x63) (\<lambda>n. 0)) (snd (stm32_rng_init (sim (\<lambda>n. 0x63) (\<lambda>n. 0)))) =
     [ClkPrepare, Readl RNG_SR 0x63, Writel 3 RNG_SR] \<and>
   events ((sim (\<lambda>n. 0x63) (\<lambda>n. 0))\<lparr>clk_prepare_err := - 12\<rparr>)
      (snd (stm32_rng_init ((sim (\<lambda>n. 0x63) (\<lambda>n. 0))\<lparr>clk_prepare_err := - 12\<rparr>))) =
     [ClkPrepare] \<and>
   fst (stm32_rng_init ((sim (\<lambda>n. 0x63) (\<lambda>n. 0))\<lparr>clk_prepare_err := - 12\<rparr>)) = - 12"
  using init_clears_only_error_flags [of "sim (\<lambda>n. 0x63) (\<lambda>n. 0)"]
        init_clears_only_error_flags [of "(sim (\<lambda>n. 0x63) (\<lambda>n. 0))\<lparr>clk_prepare_err := - 12\<rparr>"]
  by (simp add: run_defs)

end
